theory Spec2Isabelle
  imports Main "HOL-Library.Word" "HOL-Library.Signed_Division"
begin

section \<open>Time, durations and faults\<close>

text \<open>
  The package \<^verbatim>\<open>sticker\<close> is a single Go file. The revision embedded here is the most
  recent one (it has \<^verbatim>\<open>sendTime\<close> and the interval guard in \<^verbatim>\<open>Reset\<close>). The source tree
  also keeps two earlier revisions of the file: their \<^verbatim>\<open>nextRun\<close> and \<^verbatim>\<open>Stop\<close> are the
  same, their \<^verbatim>\<open>New\<close> differs in the text of the panic message only, and what they do
  differently in \<^verbatim>\<open>Reset\<close> and in the delivery of ticks is embedded as \<open>Reset_early\<close>
  and \<open>deliver_early\<close>.

  A \<^verbatim>\<open>time.Time\<close> is an instant with nanosecond precision. It is modelled as the
  integer number of nanoseconds since the zero \<^verbatim>\<open>time.Time{}\<close> (January 1, year 1,
  00:00 UTC); the range of instants is not bounded in the model. A
  \<^verbatim>\<open>time.Duration\<close> is an \<^verbatim>\<open>int64\<close> count of nanoseconds: a 64-bit word, read
  as two's complement by \<open>sint\<close>, whose \<open>+\<close> and \<open>*\<close> wrap around.
\<close>

type_synonym Time = int
type_synonym Duration = "64 word"

text \<open>A run-time panic with its message; \<open>NotEnabled\<close> marks a scheduling event that
  cannot happen in the given state (it is not a behaviour of the program).\<close>

datatype fault = Panic string | NotEnabled

definition minDuration :: Duration where
  "minDuration = word_of_int (- (2 ^ 63))"

definition maxDuration :: Duration where
  "maxDuration = word_of_int (2 ^ 63 - 1)"

text \<open>\<^verbatim>\<open>t.Sub(u)\<close>: the duration \<open>t - u\<close>; when it does not fit a \<^verbatim>\<open>Duration\<close> the
  minimum or maximum duration is returned.\<close>

definition Sub :: "Time \<Rightarrow> Time \<Rightarrow> Duration" where
  "Sub t u = (let d = t - u in
     if d < - (2 ^ 63) then minDuration
     else if 2 ^ 63 - 1 < d then maxDuration
     else word_of_int d)"

text \<open>\<^verbatim>\<open>t.Add(d)\<close>, \<^verbatim>\<open>t.Before(u)\<close>, and \<^verbatim>\<open>time.Since(t)\<close>, \<^verbatim>\<open>time.Until(t)\<close>
  with the clock reading \<open>now\<close> made explicit.\<close>

definition Add :: "Time \<Rightarrow> Duration \<Rightarrow> Time" where
  "Add t d = t + sint d"

definition Before :: "Time \<Rightarrow> Time \<Rightarrow> bool" where
  "Before t u = (t < u)"

definition Since :: "Time \<Rightarrow> Time \<Rightarrow> Duration" where
  "Since now t = Sub now t"

definition Until :: "Time \<Rightarrow> Time \<Rightarrow> Duration" where
  "Until now t = Sub t now"

text \<open>Go's \<^verbatim>\<open>/\<close> on \<^verbatim>\<open>int64\<close>: the quotient is truncated towards zero (\<open>sdiv\<close> on
  \<open>int\<close>), wraps around for \<^verbatim>\<open>MinInt64 / -1\<close>, and a zero divisor is a run-time
  panic.\<close>

definition quo :: "Duration \<Rightarrow> Duration \<Rightarrow> fault + Duration" where
  "quo x y = (if y = 0 then Inl (Panic ''integer divide by zero'')
              else Inr (word_of_int (sint x sdiv sint y)))"

section \<open>nextRun\<close>

text \<open>
  \<^verbatim>\<open>
  func nextRun(firstStart time.Time, interval time.Duration) time.Time {
      if time.Now().UTC().Before(firstStart) {
          return firstStart
      }
      pastIterations := time.Since(firstStart) / interval
      return firstStart.Add((pastIterations + 1) * interval)
  }
  \<close>
  The function reads the clock twice: \<open>now0\<close> is the reading of \<^verbatim>\<open>time.Now()\<close> in the
  test, \<open>now1\<close> the one inside \<^verbatim>\<open>time.Since\<close>.
\<close>

definition nextRun :: "Time \<Rightarrow> Time \<Rightarrow> Time \<Rightarrow> Duration \<Rightarrow> fault + Time" where
  "nextRun now0 now1 firstStart ival =
     (if Before now0 firstStart then Inr firstStart
      else case quo (Since now1 firstStart) ival of
             Inl e \<Rightarrow> Inl e
           | Inr pastIterations \<Rightarrow> Inr (Add firstStart ((pastIterations + 1) * ival)))"

text \<open>The two operations of 64-bit arithmetic on mathematical integers, used to state
  what \<open>nextRun\<close> computes: saturation to the \<^verbatim>\<open>int64\<close> range (as \<^verbatim>\<open>Sub\<close> does) and
  two's-complement wrap-around (as \<open>*\<close> and \<open>+\<close> do).\<close>

definition sat64 :: "int \<Rightarrow> int" where
  "sat64 d = (if d < - (2 ^ 63) then - (2 ^ 63) else if 2 ^ 63 - 1 < d then 2 ^ 63 - 1 else d)"

definition wrap64 :: "int \<Rightarrow> int" where
  "wrap64 k = (k + 2 ^ 63) mod 2 ^ 64 - 2 ^ 63"

section \<open>Channels\<close>

text \<open>
  A Go channel: its buffer, its capacity, the goroutines parked in a send with the
  value each one offers, and whether it has been closed. A receiver is not parked in
  the model: a receive is a step that is possible as soon as the channel can yield a
  value.
\<close>

datatype goroutine = Client | Callback_of nat

record 'a chan =
  buf :: "'a list"
  cap :: nat
  sendq :: "(goroutine \<times> 'a) list"
  closed :: bool

text \<open>\<^verbatim>\<open>make(chan T, n)\<close>\<close>

definition make_chan :: "nat \<Rightarrow> 'a chan" where
  "make_chan n = \<lparr>buf = [], cap = n, sendq = [], closed = False\<rparr>"

text \<open>The send statement \<^verbatim>\<open>c <- v\<close> by goroutine \<open>g\<close>: a panic on a closed channel;
  the value is buffered when there is room; otherwise the goroutine parks in the send
  queue until a receiver takes the value.\<close>

definition chan_send :: "goroutine \<Rightarrow> 'a chan \<Rightarrow> 'a \<Rightarrow> fault + 'a chan" where
  "chan_send g c v =
     (if closed c then Inl (Panic ''send on closed channel'')
      else if length (buf c) < cap c then Inr (c\<lparr>buf := buf c @ [v]\<rparr>)
      else Inr (c\<lparr>sendq := sendq c @ [(g, v)]\<rparr>))"

text \<open>\<^verbatim>\<open>select { case c <- v: default: }\<close>: the send happens when there is room in the
  buffer, and nothing happens otherwise. (Receivers are not parked in the model, so
  this is the behaviour on a channel with a buffer; the program applies it to such
  channels only.)\<close>

definition try_send :: "'a chan \<Rightarrow> 'a \<Rightarrow> fault + 'a chan" where
  "try_send c v =
     (if closed c then Inl (Panic ''send on closed channel'')
      else if length (buf c) < cap c then Inr (c\<lparr>buf := buf c @ [v]\<rparr>)
      else Inr c)"

text \<open>The senders that a receive can release: those parked on an open channel.\<close>

definition parked :: "'a chan \<Rightarrow> (goroutine \<times> 'a) list" where
  "parked c = (if closed c then [] else sendq c)"

text \<open>A receive \<^verbatim>\<open><-c\<close>, when it can proceed: the value, the channel afterwards and
  the parked sender that is released, if any. A closed and drained channel yields the
  zero value of its element type; \<open>None\<close> means the receive cannot proceed.\<close>

definition chan_recv :: "'a \<Rightarrow> 'a chan \<Rightarrow> ('a \<times> 'a chan \<times> goroutine option) option" where
  "chan_recv zero c =
     (case buf c of
        b # bs \<Rightarrow>
          (case parked c of
             [] \<Rightarrow> Some (b, c\<lparr>buf := bs\<rparr>, None)
           | (g, v) # rest \<Rightarrow> Some (b, c\<lparr>buf := bs @ [v], sendq := rest\<rparr>, Some g))
      | [] \<Rightarrow>
          (case parked c of
             (g, v) # rest \<Rightarrow> Some (v, c\<lparr>sendq := rest\<rparr>, Some g)
           | [] \<Rightarrow> if closed c then Some (zero, c, None) else None))"

text \<open>\<^verbatim>\<open>close(c)\<close>: closing a closed channel panics in the closer. Otherwise the
  close succeeds, and every goroutine parked in a send on the channel panics with
  \<^verbatim>\<open>send on closed channel\<close>: these are the senders that a closed channel still has
  in its queue.\<close>

definition close_chan :: "'a chan \<Rightarrow> fault + 'a chan" where
  "close_chan c =
     (if closed c then Inl (Panic ''close of closed channel'')
      else Inr (c\<lparr>closed := True\<rparr>))"

definition sender_panics :: "'a chan \<Rightarrow> bool" where
  "sender_panics c = (closed c \<and> sendq c \<noteq> [])"

section \<open>The ticker and the state of the program\<close>

text \<open>
  \<^verbatim>\<open>
  type ScheduledTicker struct {
      C <-chan time.Time
      ticks    chan time.Time
      reset    chan time.Time
      stop     chan struct{}
      interval time.Duration
  }
  \<close>
  Channel values are references: \<open>C\<close>, \<open>ticks\<close> and \<open>reset\<close> are indices into the store
  \<open>tchans\<close> of channels of \<^verbatim>\<open>time.Time\<close>, \<open>stop\<close> is an index into the store \<open>schans\<close> of
  channels of \<^verbatim>\<open>struct{}\<close>.
\<close>

record ScheduledTicker =
  C :: nat
  ticks :: nat
  reset :: nat
  stop :: nat
  interval :: Duration

text \<open>The function given to \<^verbatim>\<open>time.AfterFunc\<close> runs in a goroutine of its own; its
  program counter names the statement it executes next.\<close>

datatype cb_pc =
  CbCheckStop | CbSendTime | CbNewTicker | CbNextTick | CbNotify | CbBlocked | CbDone

text \<open>A \<^verbatim>\<open>*time.Timer\<close> made by \<^verbatim>\<open>AfterFunc\<close>: waiting for its instant, stopped before
  it fired, or fired with its function started.\<close>

datatype timer_state = Pending | Stopped | Fired cb_pc

record Timer =
  due :: Time
  tstate :: timer_state

text \<open>A \<^verbatim>\<open>*time.Ticker\<close>: its channel \<^verbatim>\<open>C\<close> (capacity one), its period, the instant of
  its next tick and whether it is still running.\<close>

record Ticker =
  tk_C :: nat
  period :: Duration
  next_tick :: Time
  running :: bool

text \<open>The goroutine of \<^verbatim>\<open>loop\<close> waits in its \<^verbatim>\<open>select\<close>, or has returned. A
  \<^verbatim>\<open>select\<close> evaluates its channel operands once, on entry: \<open>Selecting l\<close> records the
  value \<open>l\<close> that the variable \<^verbatim>\<open>nextTick\<close> had then.\<close>

datatype loop_pc = NotStarted | Selecting "nat option" | Exited

text \<open>The state of a program with one ticker: the struct, the two channel stores, the
  variables of \<^verbatim>\<open>loop\<close> that its closures share (\<open>None\<close> is \<^verbatim>\<open>nil\<close>), the goroutine of
  the loop, the clock, and the timers and tickers of the run-time system.\<close>

record sys =
  st :: ScheduledTicker
  tchans :: "Time chan list"
  schans :: "unit chan list"
  nextTick :: "nat option"
  ticker :: "nat option"
  resetTimer :: "nat option"
  nextTickUpdated :: "nat option"
  loop_at :: loop_pc
  clock :: Time
  timers :: "Timer list"
  tickers :: "Ticker list"

text \<open>An operation ends with a fault and the state in which it happened, or with the
  next state.\<close>

type_synonym result = "(fault \<times> sys) + sys"

definition set_pc :: "nat \<Rightarrow> cb_pc \<Rightarrow> sys \<Rightarrow> sys" where
  "set_pc i pc s = s\<lparr>timers := (timers s)[i := (timers s ! i)\<lparr>tstate := Fired pc\<rparr>]\<rparr>"

text \<open>A parked sender whose value has been received goes on; for the function of a
  timer the send is the last statement.\<close>

fun wake :: "goroutine option \<Rightarrow> sys \<Rightarrow> sys" where
  "wake (Some (Callback_of i)) s = set_pc i CbDone s"
| "wake (Some Client) s = s"
| "wake None s = s"

text \<open>\<^verbatim>\<open>t.Stop()\<close> on a timer prevents it from firing if it has not fired yet, and does
  not wait for a function that has been started. \<^verbatim>\<open>t.Stop()\<close> on a ticker turns it
  off.\<close>

definition timer_Stop :: "Timer \<Rightarrow> Timer" where
  "timer_Stop t = (if tstate t = Pending then t\<lparr>tstate := Stopped\<rparr> else t)"

definition ticker_Stop :: "Ticker \<Rightarrow> Ticker" where
  "ticker_Stop k = k\<lparr>running := False\<rparr>"

text \<open>\<^verbatim>\<open>time.AfterFunc(d, f)\<close> returns a new timer due after \<open>d\<close>.
  \<^verbatim>\<open>time.NewTicker(d)\<close> panics unless \<open>d\<close> is positive and returns a new running ticker
  with a fresh channel of capacity one.\<close>

definition AfterFunc :: "Duration \<Rightarrow> sys \<Rightarrow> nat \<times> sys" where
  "AfterFunc d s =
     (length (timers s),
      s\<lparr>timers := timers s @ [\<lparr>due = Add (clock s) d, tstate = Pending\<rparr>]\<rparr>)"

definition NewTicker :: "Duration \<Rightarrow> sys \<Rightarrow> (fault \<times> sys) + (nat \<times> sys)" where
  "NewTicker d s =
     (if sint d \<le> 0 then Inl (Panic ''non-positive interval for NewTicker'', s)
      else Inr (length (tickers s),
                s\<lparr>tchans := tchans s @ [make_chan 1],
                  tickers := tickers s @
                    [\<lparr>tk_C = length (tchans s), period = d,
                      next_tick = Add (clock s) d, running = True\<rparr>]\<rparr>))"

text \<open>
  \<^verbatim>\<open>
  func sendTime(ticks chan<- time.Time, tick time.Time) {
      select {
      case ticks <- tick:
      default:
      }
  }
  \<close>
\<close>

definition sendTime :: "nat \<Rightarrow> Time \<Rightarrow> sys \<Rightarrow> result" where
  "sendTime c tick s =
     (case try_send (tchans s ! c) tick of
        Inl f \<Rightarrow> Inl (f, s)
      | Inr c' \<Rightarrow> Inr (s\<lparr>tchans := (tchans s)[c := c']\<rparr>))"

text \<open>
  \<^verbatim>\<open>
  stopTickerTimer := func() {
      nextTick = nil
      if resetTimer != nil { resetTimer.Stop(); resetTimer = nil }
      if ticker != nil { ticker.Stop(); ticker = nil }
  }
  \<close>
\<close>

definition stopTickerTimer :: "sys \<Rightarrow> sys" where
  "stopTickerTimer s =
     (let s1 = s\<lparr>nextTick := None\<rparr>;
          s2 = (case resetTimer s1 of
                  None \<Rightarrow> s1
                | Some i \<Rightarrow> s1\<lparr>timers := (timers s1)[i := timer_Stop (timers s1 ! i)],
                               resetTimer := None\<rparr>)
      in case ticker s2 of
           None \<Rightarrow> s2
         | Some k \<Rightarrow> s2\<lparr>tickers := (tickers s2)[k := ticker_Stop (tickers s2 ! k)],
                        ticker := None\<rparr>)"

section \<open>Reset and Stop\<close>

text \<open>
  \<^verbatim>\<open>
  func (st *ScheduledTicker) Reset(next time.Time, interval time.Duration) {
      if interval <= 0 {
          panic(errors.New("non-positive interval for ScheduledTicker.Reset"))
      }
      st.interval = interval
      st.reset <- next
  }
  \<close>
  The channel \<open>reset\<close> has no buffer: after \<open>Reset s next ival = Inr s'\<close> the caller is
  parked in the send, and goes on when the loop receives the value.
\<close>

definition Reset :: "sys \<Rightarrow> Time \<Rightarrow> Duration \<Rightarrow> result" where
  "Reset s next ival =
     (if sint ival \<le> 0
      then Inl (Panic ''non-positive interval for ScheduledTicker.Reset'', s)
      else let s1 = s\<lparr>st := (st s)\<lparr>interval := ival\<rparr>\<rparr> in
        case chan_send Client (tchans s1 ! reset (st s1)) next of
          Inl f \<Rightarrow> Inl (f, s1)
        | Inr c \<Rightarrow> Inr (s1\<lparr>tchans := (tchans s1)[reset (st s1) := c]\<rparr>))"

text \<open>
  \<^verbatim>\<open>
  func (st *ScheduledTicker) Stop() {
      close(st.stop)
      close(st.reset)
  }
  \<close>
\<close>

definition Stop :: "sys \<Rightarrow> result" where
  "Stop s =
     (case close_chan (schans s ! stop (st s)) of
        Inl f \<Rightarrow> Inl (f, s)
      | Inr c1 \<Rightarrow>
          let s1 = s\<lparr>schans := (schans s)[stop (st s) := c1]\<rparr> in
          (case close_chan (tchans s1 ! reset (st s1)) of
             Inl f \<Rightarrow> Inl (f, s1)
           | Inr c2 \<Rightarrow> Inr (s1\<lparr>tchans := (tchans s1)[reset (st s1) := c2]\<rparr>)))"

section \<open>The control loop\<close>

text \<open>
  The loop is one \<^verbatim>\<open>select\<close> with four cases; each function below is the loop
  committing to one case that can proceed, running its body and entering the
  \<^verbatim>\<open>select\<close> again. When several cases can proceed, Go chooses one of them at random:
  the choice is the scheduling event.

  \<^verbatim>\<open>case <-st.stop: return\<close>, followed by the deferred calls in reverse order:
  \<^verbatim>\<open>stopTickerTimer()\<close>, then the function that sets \<^verbatim>\<open>nextTickUpdated\<close> to \<^verbatim>\<open>nil\<close> and
  closes the channel.
\<close>

definition select_stop :: "sys \<Rightarrow> result" where
  "select_stop s =
     (case loop_at s of
        Selecting l \<Rightarrow>
          (case chan_recv () (schans s ! stop (st s)) of
             None \<Rightarrow> Inl (NotEnabled, s)
           | Some (u, c, g) \<Rightarrow>
               let s1 = wake g (s\<lparr>schans := (schans s)[stop (st s) := c]\<rparr>);
                   s2 = stopTickerTimer s1
               in (case nextTickUpdated s2 of
                     None \<Rightarrow> Inl (Panic ''close of nil channel'', s2)
                   | Some n \<Rightarrow>
                       let s3 = s2\<lparr>nextTickUpdated := None\<rparr> in
                       (case close_chan (schans s3 ! n) of
                          Inl f \<Rightarrow> Inl (f, s3)
                        | Inr c' \<Rightarrow> Inr (s3\<lparr>schans := (schans s3)[n := c'],
                                            loop_at := Exited\<rparr>))))
      | _ \<Rightarrow> Inl (NotEnabled, s))"

text \<open>
  \<^verbatim>\<open>
  case nextStart := <-st.reset:
      stopTickerTimer()
      resetTimer = time.AfterFunc(time.Until(nextRun(nextStart, st.interval)), func() {...})
  \<close>
  The clock is read at one instant within the step.
\<close>

definition select_reset :: "sys \<Rightarrow> result" where
  "select_reset s =
     (case loop_at s of
        Selecting l \<Rightarrow>
          (case chan_recv 0 (tchans s ! reset (st s)) of
             None \<Rightarrow> Inl (NotEnabled, s)
           | Some (nextStart, c, g) \<Rightarrow>
               let s1 = wake g (s\<lparr>tchans := (tchans s)[reset (st s) := c]\<rparr>);
                   s2 = stopTickerTimer s1
               in (case nextRun (clock s2) (clock s2) nextStart (interval (st s2)) of
                     Inl f \<Rightarrow> Inl (f, s2)
                   | Inr r \<Rightarrow>
                       let (i, s3) = AfterFunc (Until (clock s2) r) s2;
                           s4 = s3\<lparr>resetTimer := Some i\<rparr>
                       in Inr (s4\<lparr>loop_at := Selecting (nextTick s4)\<rparr>)))
      | _ \<Rightarrow> Inl (NotEnabled, s))"

text \<open>\<^verbatim>\<open>case <-nextTickUpdated:\<close> (empty body)\<close>

definition select_updated :: "sys \<Rightarrow> result" where
  "select_updated s =
     (case loop_at s of
        Selecting l \<Rightarrow>
          (case nextTickUpdated s of
             None \<Rightarrow> Inl (NotEnabled, s)
           | Some n \<Rightarrow>
               (case chan_recv () (schans s ! n) of
                  None \<Rightarrow> Inl (NotEnabled, s)
                | Some (u, c, g) \<Rightarrow>
                    let s1 = wake g (s\<lparr>schans := (schans s)[n := c]\<rparr>)
                    in Inr (s1\<lparr>loop_at := Selecting (nextTick s1)\<rparr>)))
      | _ \<Rightarrow> Inl (NotEnabled, s))"

text \<open>\<^verbatim>\<open>case t := <-nextTick: sendTime(st.ticks, t)\<close>; a \<^verbatim>\<open>nil\<close> channel never
  proceeds.\<close>

definition select_tick :: "sys \<Rightarrow> result" where
  "select_tick s =
     (case loop_at s of
        Selecting (Some n) \<Rightarrow>
          (case chan_recv 0 (tchans s ! n) of
             None \<Rightarrow> Inl (NotEnabled, s)
           | Some (t, c, g) \<Rightarrow>
               let s1 = wake g (s\<lparr>tchans := (tchans s)[n := c]\<rparr>)
               in (case sendTime (ticks (st s1)) t s1 of
                     Inl e \<Rightarrow> Inl e
                   | Inr s2 \<Rightarrow> Inr (s2\<lparr>loop_at := Selecting (nextTick s2)\<rparr>)))
      | _ \<Rightarrow> Inl (NotEnabled, s))"

text \<open>
  The function of the one-shot timer, one statement per step:
  \<^verbatim>\<open>
  func() {
      select {
      case <-st.stop:
          return
      default:
      }
      sendTime(st.ticks, time.Now())
      ticker = time.NewTicker(st.interval)
      nextTick = ticker.C
      if nextTickUpdated != nil {
          nextTickUpdated <- struct{}{}
      }
  }
  \<close>
\<close>

definition callback :: "nat \<Rightarrow> cb_pc \<Rightarrow> sys \<Rightarrow> result" where
  "callback i pc s =
     (case pc of
        CbCheckStop \<Rightarrow>
          (case chan_recv () (schans s ! stop (st s)) of
             Some (u, c, g) \<Rightarrow>
               Inr (set_pc i CbDone (wake g (s\<lparr>schans := (schans s)[stop (st s) := c]\<rparr>)))
           | None \<Rightarrow> Inr (set_pc i CbSendTime s))
      | CbSendTime \<Rightarrow>
          (case sendTime (ticks (st s)) (clock s) s of
             Inl e \<Rightarrow> Inl e
           | Inr s1 \<Rightarrow> Inr (set_pc i CbNewTicker s1))
      | CbNewTicker \<Rightarrow>
          (case NewTicker (interval (st s)) s of
             Inl e \<Rightarrow> Inl e
           | Inr (k, s1) \<Rightarrow> Inr (set_pc i CbNextTick (s1\<lparr>ticker := Some k\<rparr>)))
      | CbNextTick \<Rightarrow>
          (case ticker s of
             None \<Rightarrow> Inl (Panic ''nil pointer dereference'', s)
           | Some k \<Rightarrow> Inr (set_pc i CbNotify (s\<lparr>nextTick := Some (tk_C (tickers s ! k))\<rparr>)))
      | CbNotify \<Rightarrow>
          (case nextTickUpdated s of
             None \<Rightarrow> Inr (set_pc i CbDone s)
           | Some n \<Rightarrow>
               (case chan_send (Callback_of i) (schans s ! n) () of
                  Inl f \<Rightarrow> Inl (f, s)
                | Inr c \<Rightarrow>
                    Inr (set_pc i
                          (if length (buf (schans s ! n)) < cap (schans s ! n)
                           then CbDone else CbBlocked)
                          (s\<lparr>schans := (schans s)[n := c]\<rparr>))))
      | CbBlocked \<Rightarrow> Inl (NotEnabled, s)
      | CbDone \<Rightarrow> Inl (NotEnabled, s))"

text \<open>\<^verbatim>\<open>go ticker.loop()\<close>: the goroutine declares its variables, makes the channel
  \<^verbatim>\<open>nextTickUpdated\<close> and enters the \<^verbatim>\<open>select\<close>.\<close>

definition go_loop :: "sys \<Rightarrow> sys" where
  "go_loop s =
     (let s1 = s\<lparr>nextTick := None, ticker := None, resetTimer := None\<rparr>;
          s2 = s1\<lparr>schans := schans s1 @ [make_chan 0],
                  nextTickUpdated := Some (length (schans s1))\<rparr>
      in s2\<lparr>loop_at := Selecting (nextTick s2)\<rparr>)"

section \<open>New\<close>

text \<open>
  \<^verbatim>\<open>
  func New(first time.Time, interval time.Duration) *ScheduledTicker {
      if interval <= 0 {
          panic(errors.New("non-positive interval for New ScheduledTicker"))
      }
      c := make(chan time.Time, 1)
      ticker := &ScheduledTicker{
          ticks: c, C: c, stop: make(chan struct{}), reset: make(chan time.Time),
      }
      go ticker.loop()
      ticker.Reset(first, interval)
      return ticker
  }
  \<close>
  \<open>New now first ival\<close> is the call at clock reading \<open>now\<close> in a program without a
  ticker. \<open>Inl\<close> is a panic: no channel, no goroutine and no handle exist. \<open>Inr s\<close> is
  the program when \<^verbatim>\<open>New\<close> returns, which it does when the loop has received the value
  sent by \<^verbatim>\<open>Reset\<close>; the handle is \<open>st s\<close>.
\<close>

definition New :: "Time \<Rightarrow> Time \<Rightarrow> Duration \<Rightarrow> fault + sys" where
  "New now first ival =
     (if sint ival \<le> 0 then Inl (Panic ''non-positive interval for New ScheduledTicker'')
      else
        let s0 = \<lparr>st = \<lparr>C = 0, ticks = 0, reset = 1, stop = 0, interval = 0\<rparr>,
                  tchans = [make_chan 1, make_chan 0],
                  schans = [make_chan 0],
                  nextTick = None, ticker = None, resetTimer = None,
                  nextTickUpdated = None, loop_at = NotStarted,
                  clock = now, timers = [], tickers = []\<rparr>;
            s1 = go_loop s0
        in (case Reset s1 first ival of
              Inl (f, s2) \<Rightarrow> Inl f
            | Inr s2 \<Rightarrow> (case select_reset s2 of
                           Inl (f, s3) \<Rightarrow> Inl f
                         | Inr s3 \<Rightarrow> Inr s3)))"

section \<open>Executions\<close>

text \<open>
  An execution of the program is a sequence of events: time passes, a timer or a
  ticker of the run-time system fires, the function of a fired timer executes its
  next statement, the loop commits to a case of its \<^verbatim>\<open>select\<close>, a client calls
  \<^verbatim>\<open>Reset\<close> or \<^verbatim>\<open>Stop\<close>, the consumer receives from \<^verbatim>\<open>C\<close>.
\<close>

datatype event =
    Advance nat
  | TimerFire nat
  | TickerFire nat
  | Callback nat
  | SelectStop
  | SelectReset
  | SelectUpdated
  | SelectTick
  | CallReset Time Duration
  | CallStop
  | Receive

text \<open>A pending timer fires at or after its instant and starts its function in a new
  goroutine. A running ticker sends the current time on its channel without
  blocking, at or after the instant of its next tick.\<close>

definition timer_fire :: "nat \<Rightarrow> sys \<Rightarrow> result" where
  "timer_fire i s =
     (if i < length (timers s) \<and> tstate (timers s ! i) = Pending
         \<and> due (timers s ! i) \<le> clock s
      then Inr (set_pc i CbCheckStop s)
      else Inl (NotEnabled, s))"

definition ticker_fire :: "nat \<Rightarrow> sys \<Rightarrow> result" where
  "ticker_fire k s =
     (if k < length (tickers s) \<and> running (tickers s ! k)
         \<and> next_tick (tickers s ! k) \<le> clock s
      then let tk = tickers s ! k;
               s1 = s\<lparr>tickers :=
                        (tickers s)[k := tk\<lparr>next_tick := Add (next_tick tk) (period tk)\<rparr>]\<rparr>
           in sendTime (tk_C tk) (clock s1) s1
      else Inl (NotEnabled, s))"

text \<open>The consumer's \<^verbatim>\<open><-ticker.C\<close>.\<close>

definition receive :: "sys \<Rightarrow> result" where
  "receive s =
     (case chan_recv 0 (tchans s ! C (st s)) of
        None \<Rightarrow> Inl (NotEnabled, s)
      | Some (t, c, g) \<Rightarrow> Inr (wake g (s\<lparr>tchans := (tchans s)[C (st s) := c]\<rparr>)))"

fun step :: "event \<Rightarrow> sys \<Rightarrow> result" where
  "step (Advance n) s = Inr (s\<lparr>clock := clock s + int n\<rparr>)"
| "step (TimerFire i) s = timer_fire i s"
| "step (TickerFire k) s = ticker_fire k s"
| "step (Callback i) s =
     (if i < length (timers s)
      then (case tstate (timers s ! i) of
              Fired pc \<Rightarrow> callback i pc s
            | _ \<Rightarrow> Inl (NotEnabled, s))
      else Inl (NotEnabled, s))"
| "step SelectStop s = select_stop s"
| "step SelectReset s = select_reset s"
| "step SelectUpdated s = select_updated s"
| "step SelectTick s = select_tick s"
| "step (CallReset next ival) s = Reset s next ival"
| "step CallStop s = Stop s"
| "step Receive s = receive s"

text \<open>A goroutine that panics ends the program: an execution stops at a fault of a
  step, and at a state in which a parked sender panics because its channel has been
  closed.\<close>

definition crashed :: "sys \<Rightarrow> bool" where
  "crashed s = (list_ex sender_panics (tchans s) \<or> list_ex sender_panics (schans s))"

fun run :: "event list \<Rightarrow> sys \<Rightarrow> result" where
  "run [] s = Inr s"
| "run (e # es) s =
     (case step e s of
        Inl f \<Rightarrow> Inl f
      | Inr s' \<Rightarrow> if crashed s' then Inl (Panic ''send on closed channel'', s')
                 else run es s')"

text \<open>The execution that starts with \<^verbatim>\<open>New(first, ival)\<close> at clock reading \<open>now\<close>, and
  what can be seen of a state: whether the stop channel has been closed, the
  timestamps waiting on the output channel, and which tickers are running.\<close>

definition start :: "Time \<Rightarrow> Time \<Rightarrow> Duration \<Rightarrow> event list \<Rightarrow> fault + sys" where
  "start now first ival es =
     (case New now first ival of
        Inl f \<Rightarrow> Inl f
      | Inr s \<Rightarrow> (case run es s of Inl (f, s') \<Rightarrow> Inl f | Inr s' \<Rightarrow> Inr s'))"

definition seen :: "(sys \<Rightarrow> 'a) \<Rightarrow> fault + sys \<Rightarrow> 'a option" where
  "seen f r = (case r of Inl e \<Rightarrow> None | Inr s \<Rightarrow> Some (f s))"

definition stop_issued :: "sys \<Rightarrow> bool" where
  "stop_issued s = closed (schans s ! stop (st s))"

definition delivered :: "sys \<Rightarrow> Time list" where
  "delivered s = buf (tchans s ! C (st s))"

section \<open>Invariants of executions\<close>

text \<open>The channel that the \<^verbatim>\<open>select\<close> of the loop listens to for ticks.\<close>

fun listening :: "loop_pc \<Rightarrow> nat option" where
  "listening (Selecting l) = l"
| "listening NotStarted = None"
| "listening Exited = None"

text \<open>The channels of \<^verbatim>\<open>time.Time\<close> made after \<^verbatim>\<open>New\<close> are those of the tickers.\<close>

definition ticker_chan :: "sys \<Rightarrow> nat \<Rightarrow> bool" where
  "ticker_chan s n = (2 \<le> n \<and> n < length (tchans s))"

text \<open>
  What every state of an execution satisfies: the struct holds the channels made by
  \<^verbatim>\<open>New\<close> (\<open>C\<close> and \<open>ticks\<close> are one channel); that channel has capacity one, is open,
  holds at most one value and has no parked sender; \<open>reset\<close> has no buffer; the
  references held by the loop and by the tickers point to channels of tickers.
\<close>

definition well_formed :: "sys \<Rightarrow> bool" where
  "well_formed s =
     (C (st s) = 0 \<and> ticks (st s) = 0 \<and> reset (st s) = 1 \<and> stop (st s) = 0
      \<and> 2 \<le> length (tchans s) \<and> length (schans s) = 2
      \<and> cap (tchans s ! 0) = 1 \<and> \<not> closed (tchans s ! 0) \<and> length (buf (tchans s ! 0)) \<le> 1
      \<and> sendq (tchans s ! 0) = []
      \<and> cap (tchans s ! 1) = 0 \<and> buf (tchans s ! 1) = []
      \<and> pred_option (\<lambda>n. n = 1) (nextTickUpdated s)
      \<and> list_all (ticker_chan s) (map tk_C (tickers s))
      \<and> pred_option (ticker_chan s) (nextTick s)
      \<and> pred_option (ticker_chan s) (listening (loop_at s))
      \<and> pred_option (\<lambda>k. k < length (tickers s)) (ticker s))"

text \<open>Both channels closed by \<^verbatim>\<open>Stop\<close> are closed.\<close>

definition stop_completed :: "sys \<Rightarrow> bool" where
  "stop_completed s = (closed (schans s ! stop (st s)) \<and> closed (tchans s ! reset (st s)))"

text \<open>The state a call leaves behind, whether it panicked or returned.\<close>

fun after :: "result \<Rightarrow> sys" where
  "after (Inl (f, s)) = s"
| "after (Inr s) = s"

text \<open>Every pending one-shot timer is the one held in \<^verbatim>\<open>resetTimer\<close>.\<close>

definition one_shot_inv :: "sys \<Rightarrow> bool" where
  "one_shot_inv s =
     (\<forall>i < length (timers s). tstate (timers s ! i) = Pending \<longrightarrow> resetTimer s = Some i)"

section \<open>The two earlier revisions\<close>

text \<open>
  In both earlier revisions of the file, \<^verbatim>\<open>Reset\<close> has no guard:
  \<^verbatim>\<open>
  func (st *ScheduledTicker) Reset(next time.Time, interval time.Duration) {
      st.interval = interval
      st.reset <- next
  }
  \<close>
  and both deliveries are plain sends, \<^verbatim>\<open>st.ticks <- time.Now().UTC()\<close> in the function
  of the timer and \<^verbatim>\<open>st.ticks <- t\<close> in the loop.
\<close>

definition Reset_early :: "sys \<Rightarrow> Time \<Rightarrow> Duration \<Rightarrow> result" where
  "Reset_early s next ival =
     (let s1 = s\<lparr>st := (st s)\<lparr>interval := ival\<rparr>\<rparr> in
        case chan_send Client (tchans s1 ! reset (st s1)) next of
          Inl f \<Rightarrow> Inl (f, s1)
        | Inr c \<Rightarrow> Inr (s1\<lparr>tchans := (tchans s1)[reset (st s1) := c]\<rparr>))"

definition deliver_early :: "goroutine \<Rightarrow> Time \<Rightarrow> sys \<Rightarrow> result" where
  "deliver_early g t s =
     (case chan_send g (tchans s ! ticks (st s)) t of
        Inl f \<Rightarrow> Inl (f, s)
      | Inr c \<Rightarrow> Inr (s\<lparr>tchans := (tchans s)[ticks (st s) := c]\<rparr>))"

section \<open>Lemmas about nextRun\<close>

lemma sint_word_of_int64: "sint (word_of_int k :: 64 word) = wrap64 k"
  by (simp add: int_word_sint wrap64_def)

lemma wrap64_id: "- (2 ^ 63) \<le> k \<Longrightarrow> k < 2 ^ 63 \<Longrightarrow> wrap64 k = k"
  by (simp add: wrap64_def)

lemma sat64_range: "- (2 ^ 63) \<le> sat64 d \<and> sat64 d < 2 ^ 63"
  by (simp add: sat64_def)

lemma sat64_id: "- (2 ^ 63) \<le> k \<Longrightarrow> k < 2 ^ 63 \<Longrightarrow> sat64 k = k"
  by (simp add: sat64_def)

lemma sint_Sub: "sint (Sub t u) = sat64 (t - u)"
proof -
  have "sint (word_of_int (sat64 (t - u)) :: 64 word) = sat64 (t - u)"
    using sat64_range [of "t - u"] by (simp only: sint_word_of_int64 wrap64_id)
  moreover have "Sub t u = word_of_int (sat64 (t - u))"
    by (simp add: Sub_def sat64_def Let_def minDuration_def maxDuration_def)
  ultimately show ?thesis by simp
qed

lemma sint_pastIterations_mult:
  "sint ((word_of_int q + 1) * (i :: 64 word)) = wrap64 ((q + 1) * sint i)"
proof -
  have "sint ((word_of_int q + 1) * i) = sint (word_of_int ((q + 1) * sint i) :: 64 word)"
    by simp
  then show ?thesis by (simp only: sint_word_of_int64)
qed

lemma nextRun_elapsed:
  assumes "\<not> now0 < anchor" and "ival \<noteq> 0"
  shows "nextRun now0 now1 anchor ival =
           Inr (anchor + wrap64 ((sat64 (now1 - anchor) sdiv sint ival + 1) * sint ival))"
  using assms
  by (simp add: nextRun_def Before_def quo_def Since_def Add_def
      sint_pastIterations_mult sint_Sub)

lemma sdiv_nonneg: "0 \<le> (e::int) \<Longrightarrow> 0 < i \<Longrightarrow> e sdiv i = e div i"
  by (simp add: signed_divide_int_def sgn_if)

text \<open>
  Claim C1 (as amended). When the clock reading is not before the anchor, the interval
  is not zero, and both the elapsed time \<open>now - anchor\<close> and the product
  \<open>(pastIterations + 1) * interval\<close> fit a \<^verbatim>\<open>Duration\<close> (64 bits), \<open>nextRun\<close> returns
  \<open>anchor + (pastIterations + 1) * interval\<close> with
  \<open>pastIterations = (now - anchor) / interval\<close> truncated towards zero (\<open>sdiv\<close>).
  (\<open>now\<close> is the reading \<open>now1\<close> of \<^verbatim>\<open>time.Since\<close>.)
\<close>

theorem nextRun_past_or_present:
  assumes "\<not> now0 < anchor" and "ival \<noteq> 0"
    and "- (2 ^ 63) \<le> now1 - anchor" and "now1 - anchor < 2 ^ 63"
    and "- (2 ^ 63) \<le> ((now1 - anchor) sdiv sint ival + 1) * sint ival"
    and "((now1 - anchor) sdiv sint ival + 1) * sint ival < 2 ^ 63"
  shows "nextRun now0 now1 anchor ival =
           Inr (anchor + ((now1 - anchor) sdiv sint ival + 1) * sint ival)"
proof -
  have "sat64 (now1 - anchor) = now1 - anchor"
    using assms(3,4) by (rule sat64_id)
  moreover have "wrap64 (((now1 - anchor) sdiv sint ival + 1) * sint ival)
      = ((now1 - anchor) sdiv sint ival + 1) * sint ival"
    using assms(5,6) by (rule wrap64_id)
  ultimately show ?thesis
    using nextRun_elapsed [OF assms(1,2), of now1] by simp
qed

theorem nextRun_past_or_present_witness:
  "\<not> (12::int) < 0 \<and> (5::Duration) \<noteq> 0 \<and> (- 5::Duration) \<noteq> 0
   \<and> (12::int) sdiv 5 = 2 \<and> (12::int) sdiv (- 5) = - 2
   \<and> nextRun 12 12 0 5 = Inr 15
   \<and> nextRun 12 12 0 (- 5) = Inr 5"
  using nextRun_past_or_present [of 12 0 5 12] nextRun_past_or_present [of 12 0 "- 5" 12]
  by (simp add: signed_divide_int_def)

text \<open>With a zero interval the division panics: \<open>nextRun\<close> returns nothing.\<close>

theorem nextRun_zero_interval_panics:
  "nextRun 5 5 3 0 = Inl (Panic ''integer divide by zero'')"
  by (simp add: nextRun_def Before_def quo_def)

text \<open>An anchor more than the largest \<^verbatim>\<open>Duration\<close> (about 292 years) in the past:
  the zero \<^verbatim>\<open>time.Time{}\<close> as anchor, an interval of one second, and the clock at
  an instant of the year 2026. The elapsed time saturates, the product wraps around,
  and the result lies before the anchor.\<close>

lemma nextRun_far_past_wraps:
  "nextRun 63929260800000000000 63929260800000000000 0 1000000000
     = Inr (- 9223372036709551616)"
  by (simp add: nextRun_def Before_def quo_def Since_def Sub_def Add_def Let_def
      maxDuration_def signed_divide_int_def)

text \<open>
  Claim C2 (as amended). For an anchor strictly in the past, a positive interval, and
  an elapsed time \<open>now - anchor\<close> such that \<open>now - anchor + interval\<close> fits a
  \<^verbatim>\<open>Duration\<close>, the result of \<open>nextRun\<close> is strictly after \<open>now\<close>, at most \<open>interval\<close>
  after it, and differs from the anchor by a multiple of the interval. (\<open>now\<close> is the
  reading \<open>now1\<close> of \<^verbatim>\<open>time.Since\<close>, not earlier than the first reading.)
\<close>

theorem nextRun_aligned:
  assumes past: "anchor < now0" and mono: "now0 \<le> now1"
    and pos: "0 < sint ival"
    and range: "now1 - anchor + sint ival < 2 ^ 63"
  shows "\<exists>r. nextRun now0 now1 anchor ival = Inr r \<and> now1 < r \<and>
             r - now1 \<le> sint ival \<and> sint ival dvd (r - anchor)"
proof -
  define e where "e = now1 - anchor"
  define i where "i = sint ival"
  have e0: "0 \<le> e" and i0: "0 < i" using past mono pos by (simp_all add: e_def i_def)
  have esat: "sat64 e = e" using e0 i0 range by (simp add: sat64_def e_def i_def)
  have q: "e sdiv i = e div i" using e0 i0 by (rule sdiv_nonneg)
  have le: "(e div i + 1) * i \<le> e + i"
    using i0 by (simp add: distrib_right) (metis div_mult_mod_eq le_add_same_cancel1 pos_mod_sign)
  have ge: "0 \<le> (e div i + 1) * i" using e0 i0 by (simp add: pos_imp_zdiv_nonneg_iff)
  have w: "wrap64 ((e div i + 1) * i) = (e div i + 1) * i"
    using le ge range by (intro wrap64_id) (simp_all add: e_def i_def)
  have ne: "ival \<noteq> 0" using pos by auto
  have "nextRun now0 now1 anchor ival = Inr (anchor + (e div i + 1) * i)"
    using nextRun_elapsed [of now0 anchor ival now1] past ne
    by (simp add: esat q w e_def [symmetric] i_def [symmetric])
  moreover have "now1 < anchor + (e div i + 1) * i"
  proof -
    have "e mod i < i" using i0 by simp
    then have "e < (e div i + 1) * i"
      by (simp add: distrib_right) (metis add_strict_left_mono div_mult_mod_eq)
    then show ?thesis by (simp add: e_def)
  qed
  moreover have "anchor + (e div i + 1) * i - now1 \<le> i"
    using le by (simp add: e_def)
  moreover have "i dvd (anchor + (e div i + 1) * i - anchor)" by simp
  ultimately show ?thesis by (simp add: i_def)
qed

theorem nextRun_aligned_witness:
  "(0::int) < 12 \<and> (12::int) \<le> 12 \<and> 0 < sint (5::Duration)
   \<and> (12::int) - 0 + sint (5::Duration) < 2 ^ 63
   \<and> (\<exists>r. nextRun 12 12 0 5 = Inr r \<and> 12 < r \<and> r - 12 \<le> sint (5::Duration)
        \<and> sint (5::Duration) dvd (r - 0))"
  using nextRun_aligned [of 0 12 12 5] by simp

text \<open>When \<open>now - anchor\<close> is an exact multiple of the interval, the result is exactly
  one interval after \<open>now\<close>, not less than one interval after it. When the anchor is more
  than the largest \<^verbatim>\<open>Duration\<close> in the past, the result is not after \<open>now\<close>.\<close>

theorem nextRun_exact_multiple_counterexample:
  "nextRun 10 10 0 5 = Inr 15 \<and> \<not> ((15::int) - 10 < sint (5::Duration))
   \<and> nextRun 63929260800000000000 63929260800000000000 0 1000000000
        = Inr (- 9223372036709551616)
   \<and> \<not> ((63929260800000000000::int) < - 9223372036709551616)"
  using nextRun_far_past_wraps
  by (simp add: nextRun_def Before_def quo_def Since_def Sub_def Add_def)

text \<open>
  Claim C3. When the clock reading of the test is strictly before the anchor, \<open>nextRun\<close>
  returns the anchor unchanged, whatever the interval.
\<close>

theorem nextRun_future:
  "now0 < anchor \<Longrightarrow> nextRun now0 now1 anchor ival = Inr anchor"
  by (simp add: nextRun_def Before_def)

theorem nextRun_future_witness:
  "(3::int) < 10 \<and> nextRun 3 4 10 0 = Inr 10"
  using nextRun_future [of 3 10 4 0] by simp

section \<open>Lemmas about states and executions\<close>

lemmas chan_defs = make_chan_def chan_send_def try_send_def chan_recv_def parked_def
  close_chan_def sender_panics_def crashed_def

lemmas time_defs = nextRun_def Before_def quo_def Since_def Until_def Sub_def Add_def

lemmas model_defs = chan_defs time_defs set_pc_def timer_Stop_def ticker_Stop_def AfterFunc_def
  NewTicker_def sendTime_def stopTickerTimer_def Reset_def Stop_def select_stop_def
  select_reset_def select_updated_def select_tick_def callback_def go_loop_def New_def
  timer_fire_def ticker_fire_def receive_def

lemma nth_upd0 [simp]: "2 \<le> length xs \<Longrightarrow> xs[0 := x] ! 0 = x"
  by (cases xs) simp_all

lemma set_pc_fields [simp]:
  "st (set_pc i pc s) = st s" "tchans (set_pc i pc s) = tchans s"
  "schans (set_pc i pc s) = schans s" "nextTick (set_pc i pc s) = nextTick s"
  "ticker (set_pc i pc s) = ticker s" "resetTimer (set_pc i pc s) = resetTimer s"
  "nextTickUpdated (set_pc i pc s) = nextTickUpdated s" "loop_at (set_pc i pc s) = loop_at s"
  "clock (set_pc i pc s) = clock s" "tickers (set_pc i pc s) = tickers s"
  "length (timers (set_pc i pc s)) = length (timers s)"
  by (simp_all add: set_pc_def)

lemma wake_fields [simp]:
  "st (wake g s) = st s" "tchans (wake g s) = tchans s"
  "schans (wake g s) = schans s" "nextTick (wake g s) = nextTick s"
  "ticker (wake g s) = ticker s" "resetTimer (wake g s) = resetTimer s"
  "nextTickUpdated (wake g s) = nextTickUpdated s" "loop_at (wake g s) = loop_at s"
  "clock (wake g s) = clock s" "tickers (wake g s) = tickers s"
  "length (timers (wake g s)) = length (timers s)"
  by (cases "(g, s)" rule: wake.cases; simp)+

lemma map_upd_same: "(map f xs)[i := f (xs ! i)] = map f xs"
  by (cases "i < length xs") (simp_all add: list_eq_iff_nth_eq nth_list_update)

lemma stopTickerTimer_fields [simp]:
  "st (stopTickerTimer s) = st s" "tchans (stopTickerTimer s) = tchans s"
  "schans (stopTickerTimer s) = schans s" "nextTick (stopTickerTimer s) = None"
  "ticker (stopTickerTimer s) = None" "resetTimer (stopTickerTimer s) = None"
  "nextTickUpdated (stopTickerTimer s) = nextTickUpdated s"
  "loop_at (stopTickerTimer s) = loop_at s"
  "clock (stopTickerTimer s) = clock s"
  "map tk_C (tickers (stopTickerTimer s)) = map tk_C (tickers s)"
  "length (tickers (stopTickerTimer s)) = length (tickers s)"
  "length (timers (stopTickerTimer s)) = length (timers s)"
  by (simp_all add: stopTickerTimer_def Let_def ticker_Stop_def map_update map_upd_same split: option.splits)

lemma AfterFunc_fields [simp]:
  "fst (AfterFunc d s) = length (timers s)"
  "st (snd (AfterFunc d s)) = st s" "tchans (snd (AfterFunc d s)) = tchans s"
  "schans (snd (AfterFunc d s)) = schans s" "nextTick (snd (AfterFunc d s)) = nextTick s"
  "ticker (snd (AfterFunc d s)) = ticker s" "resetTimer (snd (AfterFunc d s)) = resetTimer s"
  "nextTickUpdated (snd (AfterFunc d s)) = nextTickUpdated s"
  "loop_at (snd (AfterFunc d s)) = loop_at s"
  "clock (snd (AfterFunc d s)) = clock s" "tickers (snd (AfterFunc d s)) = tickers s"
  by (simp_all add: AfterFunc_def)

lemma well_formed_set_pc [simp]: "well_formed (set_pc i pc s) = well_formed s"
  by (simp add: well_formed_def ticker_chan_def [abs_def])

lemma well_formed_wake [simp]: "well_formed (wake g s) = well_formed s"
  by (simp add: well_formed_def ticker_chan_def [abs_def])

lemma well_formed_stopTickerTimer: "well_formed s \<Longrightarrow> well_formed (stopTickerTimer s)"
  by (simp add: well_formed_def ticker_chan_def [abs_def])

lemma well_formed_timer_fire: "well_formed s \<Longrightarrow> timer_fire i s = Inr s' \<Longrightarrow> well_formed s'"
  by (auto simp: timer_fire_def split: if_splits)

lemma well_formed_sendTime_ticks: "well_formed s \<Longrightarrow> sendTime 0 t s = Inr s' \<Longrightarrow> well_formed s'"
  by (auto simp: well_formed_def sendTime_def try_send_def ticker_chan_def [abs_def] split: if_splits)

lemma well_formed_sendTime_ticker: "well_formed s \<Longrightarrow> ticker_chan s n \<Longrightarrow> sendTime n t s = Inr s' \<Longrightarrow> well_formed s'"
  by (auto simp: well_formed_def sendTime_def try_send_def ticker_chan_def [abs_def] split: if_splits)

lemma well_formed_ticker_fire: "well_formed s \<Longrightarrow> ticker_fire k s = Inr s' \<Longrightarrow> well_formed s'"
  apply (simp add: ticker_fire_def Let_def split: if_splits)
  apply (erule well_formed_sendTime_ticker [rotated 2])
   apply (auto simp: well_formed_def ticker_chan_def [abs_def] list_all_length nth_list_update)
  done

lemma well_formed_Reset: "well_formed s \<Longrightarrow> Reset s next ival = Inr s' \<Longrightarrow> well_formed s'"
  by (auto simp: well_formed_def Reset_def chan_send_def Let_def ticker_chan_def [abs_def] split: if_splits)

lemma well_formed_Stop: "well_formed s \<Longrightarrow> Stop s = Inr s' \<Longrightarrow> well_formed s'"
  by (auto simp: well_formed_def Stop_def close_chan_def Let_def ticker_chan_def [abs_def] split: if_splits)

lemma well_formed_receive: "well_formed s \<Longrightarrow> receive s = Inr s' \<Longrightarrow> well_formed s'"
  by (auto simp: well_formed_def receive_def chan_recv_def parked_def Let_def ticker_chan_def [abs_def] split: if_splits option.splits list.splits)

lemma well_formed_select_updated: "well_formed s \<Longrightarrow> select_updated s = Inr s' \<Longrightarrow> well_formed s'"
  by (auto simp: select_updated_def Let_def well_formed_def ticker_chan_def [abs_def] split: loop_pc.splits option.splits)

lemma well_formed_select_stop: "well_formed s \<Longrightarrow> select_stop s = Inr s' \<Longrightarrow> well_formed s'"
  by (auto simp: select_stop_def Let_def well_formed_def ticker_chan_def [abs_def] close_chan_def
      split: loop_pc.splits option.splits if_splits)

lemma well_formed_select_reset: "well_formed s \<Longrightarrow> select_reset s = Inr s' \<Longrightarrow> well_formed s'"
  by (auto simp: select_reset_def Let_def well_formed_def ticker_chan_def [abs_def] chan_recv_def parked_def
      split_beta split: loop_pc.splits option.splits if_splits sum.splits list.splits)

lemma well_formed_select_tick: "well_formed s \<Longrightarrow> select_tick s = Inr s' \<Longrightarrow> well_formed s'"
  by (auto simp: select_tick_def Let_def well_formed_def ticker_chan_def [abs_def] chan_recv_def parked_def
      sendTime_def try_send_def
      split: loop_pc.splits option.splits if_splits sum.splits list.splits prod.splits)

lemma pred_option_less_Suc:
  "pred_option (\<lambda>n. 2 \<le> n \<and> n < m) x \<Longrightarrow> pred_option (\<lambda>n. 2 \<le> n \<and> n < Suc m) x"
  by (cases x) simp_all

lemma well_formed_callback: "well_formed s \<Longrightarrow> callback i pc s = Inr s' \<Longrightarrow> well_formed s'"
  by (cases pc)
    (auto simp: callback_def Let_def well_formed_def ticker_chan_def [abs_def] chan_recv_def parked_def
      sendTime_def try_send_def NewTicker_def chan_send_def list_all_length nth_append
      pred_option_less_Suc
      split: option.splits if_splits sum.splits list.splits prod.splits)

lemma well_formed_step: "well_formed s \<Longrightarrow> step e s = Inr s' \<Longrightarrow> well_formed s'"
proof (cases e)
  case (Advance n)
  then show "well_formed s \<Longrightarrow> step e s = Inr s' \<Longrightarrow> well_formed s'"
    by (auto simp: well_formed_def ticker_chan_def [abs_def])
next
  case (Callback i)
  then show "well_formed s \<Longrightarrow> step e s = Inr s' \<Longrightarrow> well_formed s'"
    by (auto split: if_splits timer_state.splits dest: well_formed_callback)
qed (auto dest: well_formed_timer_fire well_formed_ticker_fire well_formed_select_stop well_formed_select_reset
      well_formed_select_updated well_formed_select_tick well_formed_Reset well_formed_Stop well_formed_receive)

lemma well_formed_run: "well_formed s \<Longrightarrow> run es s = Inr s' \<Longrightarrow> well_formed s'"
  by (induction es arbitrary: s) (auto split: sum.splits if_splits dest: well_formed_step)

lemma well_formed_New: "New now first ival = Inr s \<Longrightarrow> well_formed s"
  by (auto simp: New_def Let_def go_loop_def Reset_def chan_send_def make_chan_def
      select_reset_def chan_recv_def parked_def well_formed_def ticker_chan_def [abs_def] split_beta
      split: if_splits sum.splits prod.splits)

section \<open>New and Reset validate the interval\<close>





text \<open>
  Claim C5. In every state of an execution, \<^verbatim>\<open>Reset\<close> with an interval \<open>\<le> 0\<close> panics
  in the unchanged state: the interval is not stored and nothing is sent. With an
  interval \<open>> 0\<close> on a ticker that is live (its \<open>reset\<close> channel is not closed) it does
  not panic: the interval is stored and the caller offers \<open>next\<close> to the loop.
\<close>

theorem Reset_guard:
  assumes "New now anchor ival0 = Inr s0" and "run es s0 = Inr s"
  shows "(sint ival \<le> 0 \<longrightarrow>
            Reset s next ival =
              Inl (Panic ''non-positive interval for ScheduledTicker.Reset'', s))
       \<and> (0 < sint ival \<and> \<not> closed (tchans s ! reset (st s)) \<longrightarrow>
            (\<exists>s'. Reset s next ival = Inr s' \<and> interval (st s') = ival
               \<and> sendq (tchans s' ! reset (st s')) =
                   sendq (tchans s ! reset (st s)) @ [(Client, next)]))"
proof -
  have "well_formed s" using assms by (blast intro: well_formed_New well_formed_run)
  then show ?thesis
    by (auto simp: Reset_def Let_def chan_send_def well_formed_def)
qed

theorem Reset_guard_witness:
  "\<exists>s0 s. New 0 10 5 = Inr s0 \<and> run [Advance 3] s0 = Inr s
     \<and> sint (0 :: Duration) \<le> 0 \<and> 0 < sint (7 :: Duration)
     \<and> \<not> closed (tchans s ! reset (st s))
     \<and> Reset s 20 0 = Inl (Panic ''non-positive interval for ScheduledTicker.Reset'', s)
     \<and> (\<exists>s'. Reset s 20 7 = Inr s' \<and> interval (st s') = 7
           \<and> sendq (tchans s' ! reset (st s')) = [(Client, 20)])"
proof -
  obtain s0 where s0: "New 0 10 5 = Inr s0"
    by (simp add: model_defs Let_def)
  obtain s where s: "run [Advance 3] s0 = Inr s"
    and obs: "\<not> closed (tchans s ! reset (st s))" "sendq (tchans s ! reset (st s)) = []"
    using s0 by (auto simp: model_defs Let_def)
  from Reset_guard [OF s0 s, of 0 20] Reset_guard [OF s0 s, of 7 20] obs
  have "Reset s 20 0 = Inl (Panic ''non-positive interval for ScheduledTicker.Reset'', s)"
    and "\<exists>s'. Reset s 20 7 = Inr s' \<and> interval (st s') = 7
           \<and> sendq (tchans s' ! reset (st s')) = [(Client, 20)]"
    by auto
  with s0 s obs show ?thesis by (intro exI [of _ s0] exI [of _ s]) simp
qed

section \<open>Delivery on the output channel\<close>

lemma sendTime_ticks:
  assumes "well_formed s"
  shows "sendTime (ticks (st s)) t s =
           Inr (if delivered s = []
                then s\<lparr>tchans := (tchans s)[ticks (st s) :=
                                      (tchans s ! ticks (st s))\<lparr>buf := [t]\<rparr>]\<rparr>
                else s)"
  using assms
  by (cases "buf (tchans s ! 0)") (auto simp: well_formed_def sendTime_def try_send_def delivered_def)

lemma delivered_sendTime:
  assumes "well_formed s" and "sendTime (ticks (st s)) t s = Inr s'"
  shows "delivered s' = (if delivered s = [] then [t] else delivered s)"
  using assms(2) unfolding sendTime_ticks [OF assms(1)]
  using assms(1) by (auto simp: delivered_def well_formed_def split: if_splits)

lemma sendq_sendTime:
  assumes "well_formed s" and "sendTime (ticks (st s)) t s = Inr s'"
  shows "sendq (tchans s' ! ticks (st s')) = []"
  using assms(2) unfolding sendTime_ticks [OF assms(1)]
  using assms(1) by (auto simp: well_formed_def split: if_splits)

lemma callback_delivers:
  assumes "well_formed s" and "i < length (timers s)" and "tstate (timers s ! i) = Fired CbSendTime"
  shows "\<exists>s'. step (Callback i) s = Inr s' \<and>
           delivered s' = (if delivered s = [] then [clock s] else delivered s) \<and>
           sendq (tchans s' ! ticks (st s')) = [] \<and>
           tstate (timers s' ! i) = Fired CbNewTicker \<and>
           s' = set_pc i CbNewTicker
                  (if delivered s = []
                   then s\<lparr>tchans := (tchans s)[ticks (st s) :=
                                         (tchans s ! ticks (st s))\<lparr>buf := [clock s]\<rparr>]\<rparr>
                   else s)"
proof -
  let ?s1 = "if delivered s = []
             then s\<lparr>tchans := (tchans s)[ticks (st s) :=
                                   (tchans s ! ticks (st s))\<lparr>buf := [clock s]\<rparr>]\<rparr>
             else s"
  have s1: "sendTime (ticks (st s)) (clock s) s = Inr ?s1"
    by (rule sendTime_ticks [OF assms(1)])
  have d: "delivered ?s1 = (if delivered s = [] then [clock s] else delivered s)"
    using assms(1) s1 by (rule delivered_sendTime)
  have q: "sendq (tchans ?s1 ! ticks (st ?s1)) = []"
    using assms(1) s1 by (rule sendq_sendTime)
  have len: "length (timers ?s1) = length (timers s)" by simp
  have step: "step (Callback i) s = Inr (set_pc i CbNewTicker ?s1)"
    using assms(2,3) s1 by (simp add: callback_def)
  have pc: "tstate (timers (set_pc i CbNewTicker ?s1) ! i) = Fired CbNewTicker"
    using assms(2) len by (simp add: set_pc_def)
  have d': "delivered (set_pc i CbNewTicker ?s1) = delivered ?s1"
    by (simp add: delivered_def)
  have q': "sendq (tchans (set_pc i CbNewTicker ?s1) ! ticks (st (set_pc i CbNewTicker ?s1)))
      = sendq (tchans ?s1 ! ticks (st ?s1))"
    by simp
  show ?thesis
    using step pc d d' q q' by (intro exI [of _ "set_pc i CbNewTicker ?s1"]) simp
qed

lemma select_tick_delivers:
  assumes "well_formed s" and "loop_at s = Selecting (Some n)"
    and "chan_recv 0 (tchans s ! n) = Some (t, c, g)"
  shows "\<exists>s'. step SelectTick s = Inr s' \<and>
           delivered s' = (if delivered s = [] then [t] else delivered s) \<and>
           sendq (tchans s' ! ticks (st s')) = [] \<and>
           loop_at s' = Selecting (nextTick s')"
proof -
  define s1 where "s1 = wake g (s\<lparr>tchans := (tchans s)[n := c]\<rparr>)"
  have n: "2 \<le> n" "n < length (tchans s)"
    using assms(1,2) by (simp_all add: well_formed_def ticker_chan_def)
  have wf1: "well_formed s1"
    using assms(1) n by (simp add: s1_def well_formed_def ticker_chan_def [abs_def])
  have d1: "delivered s1 = delivered s"
    using assms(1) n by (simp add: s1_def delivered_def well_formed_def)
  obtain s2 where s2: "sendTime (ticks (st s1)) t s1 = Inr s2"
    using sendTime_ticks [OF wf1] by simp
  have "delivered s2 = (if delivered s = [] then [t] else delivered s)"
    using delivered_sendTime [OF wf1 s2] d1 by simp
  moreover have "sendq (tchans s2 ! ticks (st s2)) = []"
    using wf1 s2 by (rule sendq_sendTime)
  ultimately show ?thesis
    using assms(2,3) s2 by (simp add: select_tick_def s1_def delivered_def)
qed

text \<open>
  Claim C6. In every state of an execution the output channel (\<open>C\<close>, the same channel as
  \<open>ticks\<close>) has capacity one, holds at most one timestamp and has no sender parked on
  it; \<open>sendTime\<close> on it always returns, storing the tick when the channel is empty and
  leaving the state unchanged when it is not. The first fire (the function of the
  one-shot timer at its \<^verbatim>\<open>sendTime\<close>) and every steady fire (the loop receiving from
  the ticker) can always take their step, deliver exactly in this way, and do not
  block: no sender is parked on the output channel afterwards, the function of the
  timer is at its next statement (\<^verbatim>\<open>time.NewTicker\<close>), and the loop is back in its
  \<^verbatim>\<open>select\<close>.
\<close>

theorem ticks_capacity_one_drop_on_full:
  assumes "New now anchor ival = Inr s0" and "run es s0 = Inr s"
  shows "C (st s) = ticks (st s)
     \<and> cap (tchans s ! ticks (st s)) = 1 \<and> length (delivered s) \<le> 1
     \<and> sendq (tchans s ! ticks (st s)) = []
     \<and> (\<forall>t. sendTime (ticks (st s)) t s =
              Inr (if delivered s = []
                   then s\<lparr>tchans := (tchans s)[ticks (st s) :=
                                         (tchans s ! ticks (st s))\<lparr>buf := [t]\<rparr>]\<rparr>
                   else s))
     \<and> (\<forall>i. i < length (timers s) \<and> tstate (timers s ! i) = Fired CbSendTime \<longrightarrow>
            (\<exists>s'. step (Callback i) s = Inr s' \<and>
                   delivered s' = (if delivered s = [] then [clock s] else delivered s) \<and>
                   sendq (tchans s' ! ticks (st s')) = [] \<and>
                   tstate (timers s' ! i) = Fired CbNewTicker \<and>
                   s' = set_pc i CbNewTicker
                          (if delivered s = []
                           then s\<lparr>tchans := (tchans s)[ticks (st s) :=
                                   (tchans s ! ticks (st s))\<lparr>buf := [clock s]\<rparr>]\<rparr>
                           else s)))
     \<and> (\<forall>n t c g. loop_at s = Selecting (Some n) \<and>
                   chan_recv 0 (tchans s ! n) = Some (t, c, g) \<longrightarrow>
            (\<exists>s'. step SelectTick s = Inr s' \<and>
                   delivered s' = (if delivered s = [] then [t] else delivered s) \<and>
                   sendq (tchans s' ! ticks (st s')) = [] \<and>
                   loop_at s' = Selecting (nextTick s')))"
proof -
  have well_formed: "well_formed s" using assms by (blast intro: well_formed_New well_formed_run)
  have "C (st s) = ticks (st s)" "cap (tchans s ! ticks (st s)) = 1"
    "length (delivered s) \<le> 1" "sendq (tchans s ! ticks (st s)) = []"
    using well_formed by (simp_all add: well_formed_def delivered_def)
  moreover note sendTime_ticks [OF well_formed] callback_delivers [OF well_formed]
    select_tick_delivers [OF well_formed]
  ultimately show ?thesis by blast
qed

theorem ticks_capacity_one_drop_on_full_witness:
  "(\<exists>s0 s. New 0 10 5 = Inr s0
     \<and> run [Advance 10, TimerFire 0, Callback 0, Callback 0, Callback 0, Callback 0,
             Callback 0, SelectUpdated, CallReset 10 5, SelectReset, Advance 5,
             TimerFire 1, Callback 1] s0 = Inr s
     \<and> delivered s = [10] \<and> 1 < length (timers s)
     \<and> tstate (timers s ! 1) = Fired CbSendTime
     \<and> (\<exists>s'. step (Callback 1) s = Inr s' \<and> delivered s' = [10]
           \<and> sendq (tchans s' ! ticks (st s')) = []
           \<and> tstate (timers s' ! 1) = Fired CbNewTicker))
   \<and> (\<exists>s0 s. New 0 10 5 = Inr s0
     \<and> run [Advance 10, TimerFire 0, Callback 0, Callback 0, Callback 0, Callback 0,
             Callback 0, SelectUpdated, Advance 5, TickerFire 0] s0 = Inr s
     \<and> delivered s = [10] \<and> loop_at s = Selecting (Some 2)
     \<and> chan_recv 0 (tchans s ! 2) = Some (15, make_chan 1, None)
     \<and> (\<exists>s'. step SelectTick s = Inr s' \<and> delivered s' = [10]
           \<and> sendq (tchans s' ! ticks (st s')) = []
           \<and> loop_at s' = Selecting (nextTick s')))"
proof -
  obtain s0 where s0: "New 0 10 5 = Inr s0"
    by (simp add: model_defs Let_def)
  obtain s where s: "run [Advance 10, TimerFire 0, Callback 0, Callback 0, Callback 0,
             Callback 0, Callback 0, SelectUpdated, CallReset 10 5, SelectReset, Advance 5,
             TimerFire 1, Callback 1] s0 = Inr s"
    and obs: "delivered s = [10]" "tstate (timers s ! 1) = Fired CbSendTime"
      "1 < length (timers s)"
    using s0 by (auto simp: model_defs Let_def delivered_def)
  from ticks_capacity_one_drop_on_full [OF s0 s] obs
  have one_shot: "\<exists>s'. step (Callback 1) s = Inr s' \<and> delivered s' = [10]
           \<and> sendq (tchans s' ! ticks (st s')) = []
           \<and> tstate (timers s' ! 1) = Fired CbNewTicker"
    by auto
  obtain u where u: "run [Advance 10, TimerFire 0, Callback 0, Callback 0, Callback 0,
             Callback 0, Callback 0, SelectUpdated, Advance 5, TickerFire 0] s0 = Inr u"
    and obu: "delivered u = [10]" "loop_at u = Selecting (Some 2)"
      "chan_recv 0 (tchans u ! 2) = Some (15, make_chan 1, None)"
    using s0 by (auto simp: model_defs Let_def delivered_def)
  from ticks_capacity_one_drop_on_full [OF s0 u] obu
  have steady: "\<exists>s'. step SelectTick u = Inr s' \<and> delivered s' = [10]
           \<and> sendq (tchans s' ! ticks (st s')) = []
           \<and> loop_at s' = Selecting (nextTick s')"
    by auto
  from s0 s obs one_shot have "\<exists>s0 s. New 0 10 5 = Inr s0
     \<and> run [Advance 10, TimerFire 0, Callback 0, Callback 0, Callback 0, Callback 0,
             Callback 0, SelectUpdated, CallReset 10 5, SelectReset, Advance 5,
             TimerFire 1, Callback 1] s0 = Inr s
     \<and> delivered s = [10] \<and> 1 < length (timers s)
     \<and> tstate (timers s ! 1) = Fired CbSendTime
     \<and> (\<exists>s'. step (Callback 1) s = Inr s' \<and> delivered s' = [10]
           \<and> sendq (tchans s' ! ticks (st s')) = []
           \<and> tstate (timers s' ! 1) = Fired CbNewTicker)"
    by blast
  moreover from s0 u obu steady have "\<exists>s0 s. New 0 10 5 = Inr s0
     \<and> run [Advance 10, TimerFire 0, Callback 0, Callback 0, Callback 0, Callback 0,
             Callback 0, SelectUpdated, Advance 5, TickerFire 0] s0 = Inr s
     \<and> delivered s = [10] \<and> loop_at s = Selecting (Some 2)
     \<and> chan_recv 0 (tchans s ! 2) = Some (15, make_chan 1, None)
     \<and> (\<exists>s'. step SelectTick s = Inr s' \<and> delivered s' = [10]
           \<and> sendq (tchans s' ! ticks (st s')) = []
           \<and> loop_at s' = Selecting (nextTick s'))"
    by blast
  ultimately show ?thesis by blast
qed

section \<open>Stop\<close>

lemma Stop_frame:
  assumes "well_formed s"
  shows "C (st (after (Stop s))) = C (st s)
       \<and> ticks (st (after (Stop s))) = ticks (st s)
       \<and> tchans (after (Stop s)) ! C (st s) = tchans s ! C (st s)
       \<and> \<not> closed (tchans (after (Stop s)) ! C (st s))
       \<and> (after (Stop s))\<lparr>tchans := tchans s, schans := schans s\<rparr> = s
       \<and> length (tchans (after (Stop s))) = length (tchans s)
       \<and> (\<forall>n. n \<noteq> reset (st s) \<longrightarrow> tchans (after (Stop s)) ! n = tchans s ! n)
       \<and> (\<forall>n. n \<noteq> stop (st s) \<longrightarrow> schans (after (Stop s)) ! n = schans s ! n)"
  using assms
  by (auto simp: Stop_def close_chan_def Let_def well_formed_def)

text \<open>
  Claim C9. In every state of an execution, whether \<^verbatim>\<open>Stop\<close> returns or panics, it
  leaves the fields \<open>C\<close> and \<open>ticks\<close> and the channel they refer to unchanged, and that
  channel is open afterwards. \<^verbatim>\<open>Stop\<close> changes nothing but the two channel stores, and
  there only the channels \<open>stop\<close> and \<open>reset\<close>.
\<close>

theorem Stop_keeps_output_open:
  assumes "New now anchor ival = Inr s0" and "run es s0 = Inr s"
  shows "C (st (after (Stop s))) = C (st s)
       \<and> ticks (st (after (Stop s))) = ticks (st s)
       \<and> tchans (after (Stop s)) ! C (st s) = tchans s ! C (st s)
       \<and> \<not> closed (tchans (after (Stop s)) ! C (st s))
       \<and> (after (Stop s))\<lparr>tchans := tchans s, schans := schans s\<rparr> = s
       \<and> length (tchans (after (Stop s))) = length (tchans s)
       \<and> (\<forall>n. n \<noteq> reset (st s) \<longrightarrow> tchans (after (Stop s)) ! n = tchans s ! n)
       \<and> (\<forall>n. n \<noteq> stop (st s) \<longrightarrow> schans (after (Stop s)) ! n = schans s ! n)"
proof -
  have "well_formed s" using assms by (blast intro: well_formed_New well_formed_run)
  then show ?thesis by (rule Stop_frame)
qed

theorem Stop_keeps_output_open_witness:
  "\<exists>s0 s. New 0 10 5 = Inr s0
     \<and> run [Advance 10, TimerFire 0, Callback 0, Callback 0] s0 = Inr s
     \<and> delivered s = [10] \<and> delivered (after (Stop s)) = [10]
     \<and> stop_issued (after (Stop s))
     \<and> \<not> closed (tchans (after (Stop s)) ! C (st s))"
proof -
  obtain s0 where s0: "New 0 10 5 = Inr s0"
    by (simp add: model_defs Let_def)
  obtain s where s: "run [Advance 10, TimerFire 0, Callback 0, Callback 0] s0 = Inr s"
    and obs: "delivered s = [10]" "stop_issued (after (Stop s))"
    using s0 by (auto simp: model_defs Let_def delivered_def stop_issued_def)
  from Stop_keeps_output_open [OF s0 s]
  have a: "tchans (after (Stop s)) ! C (st s) = tchans s ! C (st s)"
    and b: "\<not> closed (tchans (after (Stop s)) ! C (st s))"
    and c: "C (st (after (Stop s))) = C (st s)"
    by blast+
  from a c obs(1) have "delivered (after (Stop s)) = [10]"
    by (simp add: delivered_def)
  with s0 s obs b show ?thesis by blast
qed

lemma stop_completed_Stop: "Stop s = Inr s' \<Longrightarrow> well_formed s \<Longrightarrow> stop_completed s'"
  by (auto simp: Stop_def close_chan_def Let_def well_formed_def stop_completed_def split: if_splits)

lemma stop_completed_step:
  assumes "well_formed s" and "stop_completed s" and "step e s = Inr s'"
  shows "stop_completed s'"
proof (cases e)
  case (Callback i)
  then obtain pc where pc: "callback i pc s = Inr s'"
    using assms(3) by (auto split: if_splits timer_state.splits)
  show ?thesis
    using assms(1,2) pc
    by (cases pc)
      (auto simp: callback_def well_formed_def stop_completed_def sendTime_def try_send_def NewTicker_def
        chan_send_def chan_recv_def parked_def nth_append
        split: option.splits sum.splits if_splits list.splits prod.splits)
next
  case SelectStop
  then show ?thesis
    using assms
    by (auto simp: select_stop_def well_formed_def stop_completed_def close_chan_def chan_recv_def parked_def Let_def
        split: loop_pc.splits option.splits if_splits list.splits)
next
  case SelectReset
  then show ?thesis
    using assms
    by (auto simp: select_reset_def well_formed_def stop_completed_def chan_recv_def parked_def Let_def split_beta
        split: loop_pc.splits option.splits sum.splits if_splits list.splits)
next
  case SelectUpdated
  then show ?thesis
    using assms
    by (auto simp: select_updated_def well_formed_def stop_completed_def chan_recv_def parked_def Let_def
        split: loop_pc.splits option.splits if_splits list.splits)
next
  case SelectTick
  then show ?thesis
    using assms
    by (auto simp: select_tick_def well_formed_def stop_completed_def chan_recv_def parked_def Let_def sendTime_def
        try_send_def ticker_chan_def
        split: loop_pc.splits option.splits sum.splits if_splits list.splits)
qed (use assms in \<open>auto simp: well_formed_def stop_completed_def timer_fire_def ticker_fire_def sendTime_def
      try_send_def Reset_def Stop_def close_chan_def chan_send_def receive_def chan_recv_def parked_def
      Let_def list_all_length ticker_chan_def
      split: if_splits option.splits list.splits sum.splits\<close>)

lemma stop_completed_run: "well_formed s \<Longrightarrow> stop_completed s \<Longrightarrow> run es s = Inr s' \<Longrightarrow> stop_completed s'"
  by (induction es arbitrary: s) (auto split: sum.splits if_splits dest: well_formed_step stop_completed_step)

lemma stop_completed_after_CallStop:
  "well_formed s \<Longrightarrow> CallStop \<in> set es \<Longrightarrow> run es s = Inr s' \<Longrightarrow> stop_completed s'"
proof (induction es arbitrary: s)
  case Nil
  then show ?case by simp
next
  case (Cons e es)
  from Cons.prems(3) obtain s1 where s1: "step e s = Inr s1" and r: "run es s1 = Inr s'"
    by (auto split: sum.splits if_splits)
  have wf1: "well_formed s1" using Cons.prems(1) s1 by (rule well_formed_step)
  show ?case
  proof (cases "e = CallStop")
    case True
    then have "stop_completed s1" using s1 Cons.prems(1) by (simp add: stop_completed_Stop)
    then show ?thesis using wf1 r by (blast intro: stop_completed_run)
  next
    case False
    then have "CallStop \<in> set es" using Cons.prems(2) by simp
    then show ?thesis using Cons.IH wf1 r by blast
  qed
qed

text \<open>
  Claim C10. In every execution in which \<^verbatim>\<open>Stop\<close> has been called and has returned, at
  any later state a call of \<^verbatim>\<open>Reset\<close> panics (at the guard for an interval \<open>\<le> 0\<close>,
  otherwise at the send on the closed \<open>reset\<close> channel, after storing the interval), and
  a call of \<^verbatim>\<open>Stop\<close> panics at the close of the closed \<open>stop\<close> channel.
\<close>

theorem use_after_Stop_panics:
  assumes "New now anchor ival0 = Inr s0" and "run es s0 = Inr s" and "CallStop \<in> set es"
  shows "Reset s next ival =
           (if sint ival \<le> 0
            then Inl (Panic ''non-positive interval for ScheduledTicker.Reset'', s)
            else Inl (Panic ''send on closed channel'', s\<lparr>st := (st s)\<lparr>interval := ival\<rparr>\<rparr>))
       \<and> Stop s = Inl (Panic ''close of closed channel'', s)"
proof -
  have "well_formed s0" using assms(1) by (rule well_formed_New)
  then have "stop_completed s" using assms(3,2) by (rule stop_completed_after_CallStop)
  then show ?thesis
    by (simp add: stop_completed_def Reset_def Stop_def chan_send_def close_chan_def Let_def)
qed

theorem use_after_Stop_panics_witness:
  "\<exists>s0 s. New 0 10 5 = Inr s0 \<and> run [Advance 3, CallStop, SelectStop] s0 = Inr s
     \<and> CallStop \<in> set [Advance 3, CallStop, SelectStop]
     \<and> Reset s 20 7 =
         Inl (Panic ''send on closed channel'', s\<lparr>st := (st s)\<lparr>interval := 7\<rparr>\<rparr>)
     \<and> Stop s = Inl (Panic ''close of closed channel'', s)"
proof -
  obtain s0 where s0: "New 0 10 5 = Inr s0"
    by (simp add: model_defs Let_def)
  obtain s where s: "run [Advance 3, CallStop, SelectStop] s0 = Inr s"
    using s0 by (auto simp: model_defs Let_def)
  have m: "CallStop \<in> set [Advance 3, CallStop, SelectStop]" by simp
  from use_after_Stop_panics [OF s0 s m, of 20 7] s0 s m show ?thesis
    by (intro exI [of _ s0] exI [of _ s]) simp
qed

text \<open>A close with a sender parked on the channel succeeds, and the parked sender
  panics. With a \<^verbatim>\<open>Reset\<close> parked in its send, \<^verbatim>\<open>Stop\<close> returns with both channels
  closed and the program ends with the panic of the caller of \<^verbatim>\<open>Reset\<close>; when the
  loop returns while the function of a timer is parked in its send on
  \<^verbatim>\<open>nextTickUpdated\<close>, the deferred close ends the program with the panic of that
  function.\<close>

lemma Stop_with_a_parked_Reset:
  "\<exists>s0 s s'. New 0 10 5 = Inr s0 \<and> run [CallReset 20 7] s0 = Inr s
     \<and> sendq (tchans s ! reset (st s)) = [(Client, 20)]
     \<and> Stop s = Inr s' \<and> stop_completed s' \<and> crashed s'
     \<and> run [CallStop] s = Inl (Panic ''send on closed channel'', s')"
  by (simp add: model_defs stop_completed_def Let_def)

lemma loop_exit_with_a_parked_callback:
  "start 0 10 5 [Advance 10, TimerFire 0, Callback 0, Callback 0, Callback 0, Callback 0,
                 Callback 0, CallStop, SelectStop] = Inl (Panic ''send on closed channel'')"
  by (simp add: model_defs start_def Let_def)

section \<open>Delivery after Stop\<close>

text \<open>
  Claim C7 does not hold of the code. Two executions of \<^verbatim>\<open>New(10, 5)\<close> called at
  instant \<open>0\<close>. In the first the one-shot timer fires at \<open>10\<close>, its function finds the
  stop channel open, then \<^verbatim>\<open>Stop\<close> closes it, then the function executes its
  \<^verbatim>\<open>sendTime\<close>: the timestamp \<open>10\<close> arrives on the output channel after the stop
  signal. In the second the ticker is steady, the consumer has drained the output
  channel, the ticker fires at \<open>15\<close>, then \<^verbatim>\<open>Stop\<close> is called, and the \<^verbatim>\<open>select\<close> of
  the loop, with both its stop case and its tick case able to proceed, takes the tick
  case: the timestamp \<open>15\<close> arrives after the stop signal.
\<close>

theorem tick_delivered_after_Stop:
  "seen (\<lambda>s. (stop_issued s, delivered s))
     (start 0 10 5 [Advance 10, TimerFire 0, Callback 0, CallStop]) = Some (True, [])
   \<and> seen (\<lambda>s. (stop_issued s, delivered s))
     (start 0 10 5 [Advance 10, TimerFire 0, Callback 0, CallStop, Callback 0])
       = Some (True, [10])
   \<and> seen (\<lambda>s. (stop_issued s, delivered s))
     (start 0 10 5 [Advance 10, TimerFire 0, Callback 0, Callback 0, Callback 0, Callback 0,
                    Callback 0, SelectUpdated, Receive, Advance 5, TickerFire 0, CallStop])
       = Some (True, [])
   \<and> seen (\<lambda>s. (stop_issued s, delivered s))
     (start 0 10 5 [Advance 10, TimerFire 0, Callback 0, Callback 0, Callback 0, Callback 0,
                    Callback 0, SelectUpdated, Receive, Advance 5, TickerFire 0, CallStop,
                    SelectTick])
       = Some (True, [15])"
  by (simp add: model_defs start_def seen_def stop_issued_def delivered_def Let_def)

text \<open>What does hold: a timer function that makes its check after the stop signal
  returns without delivering and without making a ticker, and a loop that has
  returned takes no further step.\<close>

lemma callback_started_after_Stop_returns:
  assumes "well_formed s" and "stop_issued s"
    and "i < length (timers s)" and "tstate (timers s ! i) = Fired CbCheckStop"
  shows "\<exists>s'. step (Callback i) s = Inr s' \<and> tstate (timers s' ! i) = Fired CbDone
           \<and> tchans s' = tchans s \<and> tickers s' = tickers s"
  using assms
  by (auto simp: callback_def chan_recv_def parked_def stop_issued_def well_formed_def set_pc_def
      split: list.splits)

lemma loop_exited_takes_no_step:
  assumes "loop_at s = Exited"
  shows "step SelectStop s = Inl (NotEnabled, s)" and "step SelectReset s = Inl (NotEnabled, s)"
    and "step SelectUpdated s = Inl (NotEnabled, s)" and "step SelectTick s = Inl (NotEnabled, s)"
  using assms
  by (simp_all add: select_stop_def select_reset_def select_updated_def select_tick_def)

section \<open>Timers held by the loop\<close>

text \<open>
  Claim C8 does not hold of the code. In this execution of \<^verbatim>\<open>New(10, 5)\<close> the one-shot
  timer fires at \<open>10\<close>; before its function runs, \<^verbatim>\<open>Reset(20, 5)\<close> is received by the
  loop, whose \<^verbatim>\<open>stopTickerTimer\<close> finds a fired timer and no ticker, and which arms a
  second one-shot timer. The function of the first timer then makes ticker \<open>0\<close>, and at
  \<open>20\<close> the function of the second timer makes ticker \<open>1\<close> and overwrites the variable
  \<^verbatim>\<open>ticker\<close>: two interval timers run. After \<^verbatim>\<open>Stop\<close> and the exit of the loop, ticker
  \<open>0\<close> still runs: no path releases it.
\<close>

theorem interval_timer_leaks_on_racing_Reset:
  "seen (\<lambda>s. (map running (tickers s), ticker s, loop_at s))
     (start 0 10 5 [Advance 10, TimerFire 0, CallReset 20 5, SelectReset,
                    Callback 0, Callback 0, Callback 0, Callback 0, Callback 0, SelectUpdated,
                    Advance 10, TimerFire 1, Callback 1, Callback 1, Callback 1])
       = Some ([True, True], Some 1, Selecting (Some 2))
   \<and> seen (\<lambda>s. (map running (tickers s), ticker s, loop_at s))
     (start 0 10 5 [Advance 10, TimerFire 0, CallReset 20 5, SelectReset,
                    Callback 0, Callback 0, Callback 0, Callback 0, Callback 0, SelectUpdated,
                    Advance 10, TimerFire 1, Callback 1, Callback 1, Callback 1, Callback 1,
                    Callback 1, SelectUpdated, CallStop, SelectStop])
       = Some ([True, False], None, Exited)"
  by (simp add: model_defs start_def seen_def Let_def)

text \<open>What does hold: in every state of an execution at most one one-shot timer is
  pending, and it is the one held in \<^verbatim>\<open>resetTimer\<close>.\<close>

lemma pending_update:
  "tstate (xs[i := x] ! j) = Pending \<Longrightarrow> tstate x \<noteq> Pending \<Longrightarrow> j < length xs
     \<Longrightarrow> tstate (xs ! j) = Pending \<and> j \<noteq> i"
  by (cases "i = j") auto

lemma pending_set_pc:
  "tstate (timers (set_pc i pc s) ! j) = Pending \<Longrightarrow> j < length (timers s)
     \<Longrightarrow> tstate (timers s ! j) = Pending"
  unfolding set_pc_def by (auto dest: pending_update)

lemma pending_wake:
  "tstate (timers (wake g s) ! j) = Pending \<Longrightarrow> j < length (timers s)
     \<Longrightarrow> tstate (timers s ! j) = Pending"
  by (cases "(g, s)" rule: wake.cases) (auto dest: pending_set_pc)

lemma one_shot_set_pc: "one_shot_inv s \<Longrightarrow> one_shot_inv (set_pc i pc s)"
  by (auto simp: one_shot_inv_def dest: pending_set_pc)

lemma one_shot_wake: "one_shot_inv s \<Longrightarrow> one_shot_inv (wake g s)"
  by (auto simp: one_shot_inv_def dest: pending_wake)

lemma no_pending_stopTickerTimer:
  assumes "one_shot_inv s" and "i < length (timers (stopTickerTimer s))"
  shows "tstate (timers (stopTickerTimer s) ! i) \<noteq> Pending"
proof (cases "resetTimer s")
  case None
  then have "timers (stopTickerTimer s) = timers s"
    by (simp add: stopTickerTimer_def Let_def split: option.splits)
  then show ?thesis using assms None by (auto simp: one_shot_inv_def)
next
  case (Some j)
  then have t: "timers (stopTickerTimer s) = (timers s)[j := timer_Stop (timers s ! j)]"
    by (simp add: stopTickerTimer_def Let_def split: option.splits)
  have "tstate (timer_Stop (timers s ! j)) \<noteq> Pending"
    by (simp add: timer_Stop_def)
  then show ?thesis
    using assms Some unfolding t
    by (auto simp: one_shot_inv_def dest: pending_update)
qed

lemma one_shot_select_reset:
  assumes "one_shot_inv s" and "select_reset s = Inr s'"
  shows "one_shot_inv s'"
proof -
  from assms(2) obtain c g r where
    s': "s' = (let s2 = stopTickerTimer (wake g (s\<lparr>tchans := (tchans s)[reset (st s) := c]\<rparr>));
                   s3 = snd (AfterFunc (Until (clock s2) r) s2);
                   s4 = s3\<lparr>resetTimer := Some (length (timers s2))\<rparr>
               in s4\<lparr>loop_at := Selecting (nextTick s4)\<rparr>)"
    by (auto simp: select_reset_def Let_def split_beta
        split: loop_pc.splits option.splits sum.splits)
  define s2 where "s2 = stopTickerTimer (wake g (s\<lparr>tchans := (tchans s)[reset (st s) := c]\<rparr>))"
  have "one_shot_inv (wake g (s\<lparr>tchans := (tchans s)[reset (st s) := c]\<rparr>))"
    using assms(1) by (intro one_shot_wake) (simp add: one_shot_inv_def)
  then have np: "\<And>i. i < length (timers s2) \<Longrightarrow> tstate (timers s2 ! i) \<noteq> Pending"
    unfolding s2_def by (rule no_pending_stopTickerTimer)
  show ?thesis
    using np unfolding s' s2_def [symmetric]
    by (auto simp: one_shot_inv_def Let_def AfterFunc_def nth_append)
qed

lemma one_shot_select_stop:
  assumes "one_shot_inv s" and "select_stop s = Inr s'"
  shows "one_shot_inv s'"
proof -
  from assms(2) obtain c g where
    tm: "timers s' = timers (stopTickerTimer (wake g (s\<lparr>schans := (schans s)[stop (st s) := c]\<rparr>)))"
    by (auto simp: select_stop_def Let_def
        split: loop_pc.splits option.splits sum.splits)
  have "one_shot_inv (wake g (s\<lparr>schans := (schans s)[stop (st s) := c]\<rparr>))"
    using assms(1) by (intro one_shot_wake) (simp add: one_shot_inv_def)
  then have "\<And>i. i < length (timers s') \<Longrightarrow> tstate (timers s' ! i) \<noteq> Pending"
    unfolding tm by (rule no_pending_stopTickerTimer)
  then show ?thesis by (simp add: one_shot_inv_def)
qed

lemma one_shot_callback: "one_shot_inv s \<Longrightarrow> callback i pc s = Inr s' \<Longrightarrow> one_shot_inv s'"
  by (cases pc)
    (auto simp: callback_def sendTime_def NewTicker_def chan_recv_def parked_def one_shot_inv_def
      dest!: pending_set_pc pending_wake
      split: option.splits sum.splits prod.splits if_splits list.splits)

lemma one_shot_step:
  assumes "one_shot_inv s" and "step e s = Inr s'"
  shows "one_shot_inv s'"
proof (cases e)
  case (Callback i)
  then show ?thesis
    using assms by (auto split: if_splits timer_state.splits dest: one_shot_callback)
next
  case SelectStop
  then show ?thesis using assms by (auto dest: one_shot_select_stop)
next
  case SelectReset
  then show ?thesis using assms by (auto dest: one_shot_select_reset)
next
  case SelectUpdated
  then show ?thesis
    using assms
    by (auto simp: select_updated_def Let_def one_shot_inv_def dest!: pending_wake
        split: loop_pc.splits option.splits)
next
  case SelectTick
  then show ?thesis
    using assms
    by (auto simp: select_tick_def Let_def sendTime_def one_shot_inv_def dest!: pending_wake
        split: loop_pc.splits option.splits sum.splits)
next
  case Receive
  then show ?thesis
    using assms
    by (auto simp: receive_def one_shot_inv_def dest!: pending_wake split: option.splits)
next
  case (TimerFire i)
  then show ?thesis
    using assms
    by (auto simp: timer_fire_def one_shot_inv_def dest!: pending_set_pc split: if_splits)
qed (use assms in \<open>auto simp: one_shot_inv_def ticker_fire_def
      sendTime_def Reset_def Stop_def Let_def
      split: if_splits sum.splits\<close>)

lemma one_shot_run: "one_shot_inv s \<Longrightarrow> run es s = Inr s' \<Longrightarrow> one_shot_inv s'"
  by (induction es arbitrary: s) (auto split: sum.splits if_splits dest: one_shot_step)

lemma one_shot_New: "New now first ival = Inr s \<Longrightarrow> one_shot_inv s"
  by (auto simp: New_def Let_def go_loop_def Reset_def chan_send_def make_chan_def
      select_reset_def chan_recv_def parked_def one_shot_inv_def split_beta stopTickerTimer_def
      AfterFunc_def
      split: if_splits sum.splits prod.splits)

lemma at_most_one_pending_timer:
  assumes "New now first ival = Inr s0" and "run es s0 = Inr s"
    and "i < length (timers s)" and "tstate (timers s ! i) = Pending"
    and "j < length (timers s)" and "tstate (timers s ! j) = Pending"
  shows "i = j \<and> resetTimer s = Some i"
proof -
  have "one_shot_inv s" using assms(1,2) by (blast intro: one_shot_New one_shot_run)
  then have inv: "\<And>k. k < length (timers s) \<Longrightarrow> tstate (timers s ! k) = Pending
      \<Longrightarrow> resetTimer s = Some k"
    unfolding one_shot_inv_def by blast
  from inv [OF assms(3,4)] inv [OF assms(5,6)] show ?thesis by simp
qed

section \<open>The earlier revisions\<close>

text \<open>Without the guard, \<^verbatim>\<open>Reset\<close> on a live ticker accepts every interval, and a plain
  send on the full output channel parks the sender.\<close>

lemma Reset_early_accepts_any_interval:
  "\<not> closed (tchans s ! reset (st s)) \<Longrightarrow>
     \<exists>s'. Reset_early s next ival = Inr s' \<and> interval (st s') = ival"
  by (simp add: Reset_early_def chan_send_def Let_def)

lemma deliver_early_parks_when_full:
  assumes "well_formed s" and "delivered s \<noteq> []"
  shows "\<exists>s'. deliver_early g t s = Inr s' \<and> delivered s' = delivered s
           \<and> sendq (tchans s' ! ticks (st s')) = [(g, t)]"
  using assms
  by (cases "buf (tchans s ! 0)")
     (auto simp: deliver_early_def chan_send_def well_formed_def delivered_def)

end
